theory Spec2Isabelle
  imports Main
begin

section \<open>Data model of \<open>pyl::child_unique_ptr\<close>\<close>

text \<open>
  Objects of the owned type \<open>T\<close> live at addresses; a raw pointer is an optional address
  (\<open>None\<close> is \<open>nullptr\<close>). Every \<open>child_unique_ptr\<close> instance has an identity of its own
  (its \<open>this\<close> pointer), so that \<open>this != &other\<close> and self-swap can be expressed.
\<close>

type_synonym addr = nat
type_synonym slot_id = nat

text \<open>The exceptions thrown by the class (\<open>std::runtime_error\<close> with its message,
  \<open>std::bad_any_cast\<close> from \<open>std::any_cast\<close>).\<close>

datatype fault =
    NullPointer
  | NoOwner
  | NoFieldsMap
  | KeyNotFound string
  | NoFunctionsDefined
  | FunctionNotFound string
  | ArgCountMismatch
  | BadAnyCast
  | NoValue

text \<open>The two compile-time facts about \<open>Parent\<close> and \<open>T\<close> that the \<open>if constexpr\<close>
  branches test.\<close>

record type_traits =
  is_backtraceable :: bool
  is_parent_base :: bool

text \<open>
  \<open>std::any\<close> is a universe \<open>'u\<close> of erased values. A C++ type \<open>U\<close> that can be stored in it
  is given by \<open>box\<close> (the constructor \<open>std::any(U)\<close>) and \<open>unbox\<close> (\<open>std::any_cast<U>\<close>,
  \<open>None\<close> when it throws \<open>bad_any_cast\<close>).
\<close>

record ('a, 'u) any_type =
  box :: "'a \<Rightarrow> 'u"
  unbox :: "'u \<Rightarrow> 'a option"

definition any_cast_ok :: "('a, 'u) any_type \<Rightarrow> bool" where
  "any_cast_ok t \<longleftrightarrow> (\<forall>x. unbox t (box t x) = Some x)"

text \<open>The members of \<open>child_unique_ptr\<close>; the member \<open>ptr_\<close> of the source is \<open>ptr_m\<close> here,
  and so on, since a name cannot end in an underscore. The two dynamic maps are held through
  \<open>std::unique_ptr\<close>, allocated on first use: \<open>None\<close> is the null \<open>unique_ptr\<close>.\<close>

record ('u, 'd) child_unique_ptr =
  parent_m :: "addr option"
  ptr_m :: "addr option"
  deleter_m :: 'd
  dyn_fields_m :: "(string \<rightharpoonup> 'u) option"
  dyn_fns_m :: "(string \<rightharpoonup> ('u list \<Rightarrow> fault + 'u)) option"

text \<open>
  The program state: the \<open>parent\<close> member (\<open>Backtraceable::parent\<close>) and the contents of
  every object, the log of deleter invocations \<open>deleter_(ptr_)\<close> in program order, and the
  \<open>child_unique_ptr\<close> instances. What the destructor of \<open>T\<close> does beyond being invoked
  belongs to \<open>T\<close>, not to this class.
\<close>

record ('v, 'u, 'd) state =
  parent :: "addr \<Rightarrow> addr option"
  contents :: "addr \<Rightarrow> 'v"
  destroyed :: "('d \<times> addr) list"
  slots :: "slot_id \<Rightarrow> ('u, 'd) child_unique_ptr"

text \<open>Writing the members of one instance.\<close>

definition slot_upd ::
  "slot_id \<Rightarrow> (('u, 'd) child_unique_ptr \<Rightarrow> ('u, 'd) child_unique_ptr) \<Rightarrow>
   ('v, 'u, 'd) state \<Rightarrow> ('v, 'u, 'd) state" where
  "slot_upd i f s = s\<lparr>slots := (slots s)(i := f (slots s i))\<rparr>"


section \<open>The cycle guard\<close>

text \<open>The loop of \<open>would_create_cycle\<close>:
  \<^verbatim>\<open>for (Parent* cur = new_parent; cur; cur = cur->parent) if (cur == as_parent) return true;\<close>
  followed by \<^verbatim>\<open>return false\<close>. A walk that never leaves the loop has the value \<open>None\<close>.\<close>

partial_function (option) cycle_walk ::
  "(addr \<Rightarrow> addr option) \<Rightarrow> addr option \<Rightarrow> addr option \<Rightarrow> bool option" where
  "cycle_walk h as_parent cur =
     (case cur of
        None \<Rightarrow> Some False
      | Some c \<Rightarrow> if cur = as_parent then Some True else cycle_walk h as_parent (h c))"

definition would_create_cycle ::
  "type_traits \<Rightarrow> (addr \<Rightarrow> addr option) \<Rightarrow> addr option \<Rightarrow> addr option \<Rightarrow> bool option" where
  "would_create_cycle tr h child new_parent =
     (if \<not> is_backtraceable tr then Some False
      else if \<not> is_parent_base tr then Some False
      else cycle_walk h child new_parent)"


section \<open>Ownership operations\<close>

definition set_parent_on_child ::
  "type_traits \<Rightarrow> slot_id \<Rightarrow> ('v, 'u, 'd) state \<Rightarrow> ('v, 'u, 'd) state" where
  "set_parent_on_child tr i s =
     (case ptr_m (slots s i) of
        None \<Rightarrow> s
      | Some c \<Rightarrow>
          if is_backtraceable tr then s\<lparr>parent := (parent s)(c := parent_m (slots s i))\<rparr>
          else s)"

definition clear_parent_on_child ::
  "type_traits \<Rightarrow> slot_id \<Rightarrow> ('v, 'u, 'd) state \<Rightarrow> ('v, 'u, 'd) state" where
  "clear_parent_on_child tr i s =
     (case ptr_m (slots s i) of
        None \<Rightarrow> s
      | Some c \<Rightarrow>
          if is_backtraceable tr then s\<lparr>parent := (parent s)(c := None)\<rparr>
          else s)"

text \<open>\<open>release\<close> returns the raw pointer together with the new state.\<close>

definition release ::
  "type_traits \<Rightarrow> slot_id \<Rightarrow> ('v, 'u, 'd) state \<Rightarrow> addr option \<times> ('v, 'u, 'd) state" where
  "release tr i s =
     (let s1 = clear_parent_on_child tr i s;
          p = ptr_m (slots s1 i)
      in (p, slot_upd i (\<lambda>c. c\<lparr>ptr_m := None\<rparr>) s1))"

text \<open>The part of \<open>reset\<close> after the guard: the old value loses its back-reference and is
  handed to the deleter, the new pointer is stored and receives the recorded parent.\<close>

definition adopt ::
  "type_traits \<Rightarrow> slot_id \<Rightarrow> addr option \<Rightarrow> ('v, 'u, 'd) state \<Rightarrow> ('v, 'u, 'd) state" where
  "adopt tr i p s =
     (let s1 = (case ptr_m (slots s i) of
                  None \<Rightarrow> s
                | Some old \<Rightarrow>
                    (clear_parent_on_child tr i s)
                      \<lparr>destroyed := destroyed s @ [(deleter_m (slots s i), old)]\<rparr>);
          s2 = slot_upd i (\<lambda>c. c\<lparr>ptr_m := p\<rparr>) s1
      in set_parent_on_child tr i s2)"

text \<open>\<open>reset\<close>: the condition \<^verbatim>\<open>p && parent_ && would_create_cycle(p, parent_)\<close> is evaluated
  left to right, so the walk only starts when both pointers are non-null. \<open>None\<close> means that
  the call does not return.\<close>

definition reset ::
  "type_traits \<Rightarrow> slot_id \<Rightarrow> addr option \<Rightarrow> ('v, 'u, 'd) state \<Rightarrow> ('v, 'u, 'd) state option" where
  "reset tr i p s =
     (if p \<noteq> None \<and> parent_m (slots s i) \<noteq> None then
        (case would_create_cycle tr (parent s) p (parent_m (slots s i)) of
           None \<Rightarrow> None
         | Some True \<Rightarrow> Some s
         | Some False \<Rightarrow> Some (adopt tr i p s))
      else Some (adopt tr i p s))"

text \<open>\<open>emplace\<close> is \<^verbatim>\<open>reset(new T(args...))\<close>: \<open>a\<close> is the address that \<open>new\<close> returns and \<open>v\<close>
  the constructed contents; a fresh \<open>Backtraceable\<close> has a null \<open>parent\<close>.\<close>

definition emplace ::
  "type_traits \<Rightarrow> slot_id \<Rightarrow> addr \<Rightarrow> 'v \<Rightarrow> ('v, 'u, 'd) state \<Rightarrow> ('v, 'u, 'd) state option" where
  "emplace tr i a v s =
     reset tr i (Some a) (s\<lparr>parent := (parent s)(a := None), contents := (contents s)(a := v)\<rparr>)"

text \<open>The constructors \<open>child_unique_ptr(Parent*)\<close> and \<open>child_unique_ptr(Parent*, pointer)\<close>
  build the instance \<open>i\<close>; \<open>d\<close> is the value-initialised deleter.\<close>

definition construct ::
  "slot_id \<Rightarrow> addr option \<Rightarrow> 'd \<Rightarrow> ('v, 'u, 'd) state \<Rightarrow> ('v, 'u, 'd) state" where
  "construct i par d s =
     s\<lparr>slots := (slots s)(i := \<lparr>parent_m = par, ptr_m = None, deleter_m = d,
                                 dyn_fields_m = None, dyn_fns_m = None\<rparr>)\<rparr>"

definition construct_adopt ::
  "type_traits \<Rightarrow> slot_id \<Rightarrow> addr option \<Rightarrow> addr option \<Rightarrow> 'd \<Rightarrow> ('v, 'u, 'd) state \<Rightarrow>
   ('v, 'u, 'd) state option" where
  "construct_adopt tr i par p d s = reset tr i p (construct i par d s)"

text \<open>\<open>swap\<close>: four \<open>std::swap\<close>s, then \<open>set_parent_on_child\<close> on \<open>this\<close> and on \<open>other\<close>.\<close>

definition swap ::
  "type_traits \<Rightarrow> slot_id \<Rightarrow> slot_id \<Rightarrow> ('v, 'u, 'd) state \<Rightarrow> ('v, 'u, 'd) state" where
  "swap tr i j s =
     (let a = slots s i; b = slots s j;
          s1 = s\<lparr>slots := (slots s)
                 (i := a\<lparr>ptr_m := ptr_m b, deleter_m := deleter_m b,
                         dyn_fields_m := dyn_fields_m b, dyn_fns_m := dyn_fns_m b\<rparr>,
                  j := b\<lparr>ptr_m := ptr_m a, deleter_m := deleter_m a,
                         dyn_fields_m := dyn_fields_m a, dyn_fns_m := dyn_fns_m a\<rparr>)\<rparr>
      in set_parent_on_child tr j (set_parent_on_child tr i s1))"


text \<open>
  Lifetimes. \<open>deleter_(ptr_)\<close> ends the lifetime of the object it is given, and with it the
  lifetime of the \<open>child_unique_ptr\<close> instances that are member sub-objects of that object
  (\<open>left\<close> and \<open>right\<close> of the test type \<open>Node\<close>). The destructor \<open>~child_unique_ptr\<close> is
  \<^verbatim>\<open>reset(nullptr)\<close>, which hands the value owned by the dying instance to its deleter, and so
  on. The layout of \<open>T\<close> is a parameter: \<open>members a\<close> lists the instances that are members of
  the object at address \<open>a\<close>. \<open>destroy_cascade\<close> runs through the objects that are being
  deleted and collects the instances destroyed with them; \<open>owned\<close> gives the pointer each
  instance holds. A destruction that never ends has the value \<open>None\<close>.
\<close>

partial_function (option) destroy_cascade ::
  "(addr \<Rightarrow> slot_id list) \<Rightarrow> (slot_id \<Rightarrow> addr option) \<Rightarrow> addr list \<Rightarrow> slot_id list \<Rightarrow>
   slot_id list option" where
  "destroy_cascade members owned deleting dead =
     (case deleting of
        [] \<Rightarrow> Some dead
      | a # rest \<Rightarrow>
          destroy_cascade members owned
            (List.map_filter owned (members a) @ rest) (dead @ members a))"

text \<open>What a call that reads or writes after a deletion comes to: it completes with a new
  state, or it has touched an instance or an object whose lifetime had ended.\<close>

datatype 's outcome = Use_after_destroy | Completed (state_of: 's)

text \<open>Move assignment: nothing happens when \<open>this == &other\<close>; otherwise
  \<^verbatim>\<open>reset(other.release())\<close>, then the deleter and both maps are moved out of \<open>other\<close>.
  \<open>reset\<close> may have handed the value that \<open>this\<close> owned to the deleter (the new entries of
  the log). The three assignments that follow read \<open>other\<close>, and \<open>reset\<close> has written the
  \<open>parent\<close> of the moved value after the deletion: when \<open>other\<close> or the moved value died with
  the deleted value, the call is a use after destruction. The state of a completed call
  keeps the members of the dead instances and the fields of the deleted objects as they
  were; nothing is said about them.\<close>

definition move_assign ::
  "type_traits \<Rightarrow> (addr \<Rightarrow> slot_id list) \<Rightarrow> slot_id \<Rightarrow> slot_id \<Rightarrow> ('v, 'u, 'd) state \<Rightarrow>
   ('v, 'u, 'd) state outcome option" where
  "move_assign tr members i other s =
     (if i \<noteq> other then
        (let (p, s1) = release tr other s in
         case reset tr i p s1 of
           None \<Rightarrow> None
         | Some s2 \<Rightarrow>
             (let owned = (\<lambda>j. ptr_m (slots s1 j));
                  deleted = map snd (drop (length (destroyed s1)) (destroyed s2))
              in case destroy_cascade members owned deleted [] of
                   None \<Rightarrow> None
                 | Some dead \<Rightarrow>
                     if other \<in> set dead \<or>
                        (case p of
                           None \<Rightarrow> False
                         | Some c \<Rightarrow> c \<in> set (deleted @ List.map_filter owned dead))
                     then Some Use_after_destroy
                     else
                       (let src = slots s2 other in
                        Some (Completed (s2\<lparr>slots := (slots s2)
                          (i := (slots s2 i)\<lparr>deleter_m := deleter_m src,
                                             dyn_fields_m := dyn_fields_m src,
                                             dyn_fns_m := dyn_fns_m src\<rparr>,
                           other := src\<lparr>dyn_fields_m := None, dyn_fns_m := None\<rparr>)\<rparr>)))))
      else Some (Completed s))"

text \<open>Assignment from a foreign \<open>std::unique_ptr<T>\<close>: \<open>p\<close> is what \<open>up.release()\<close> returned.\<close>

definition assign_unique ::
  "type_traits \<Rightarrow> slot_id \<Rightarrow> addr option \<Rightarrow> ('v, 'u, 'd) state \<Rightarrow> ('v, 'u, 'd) state option" where
  "assign_unique tr i p s = reset tr i p s"


section \<open>Dynamic fields\<close>

text \<open>\<open>ensure_fields\<close> allocates the map when the \<open>unique_ptr\<close> is null and returns a
  reference to it: here, the map that \<open>*dyn_fields_\<close> denotes after the call.\<close>

definition ensure_fields :: "('u, 'd) child_unique_ptr \<Rightarrow> (string \<rightharpoonup> 'u)" where
  "ensure_fields c = (case dyn_fields_m c of None \<Rightarrow> Map.empty | Some m \<Rightarrow> m)"

record field_proxy =
  owner_m :: "slot_id option"
  key_m :: string

text \<open>\<open>operator[]\<close> of \<open>child_unique_ptr\<close>.\<close>

definition subscript ::
  "slot_id \<Rightarrow> string \<Rightarrow> ('v, 'u, 'd) state \<Rightarrow> fault + field_proxy" where
  "subscript i key s =
     (if ptr_m (slots s i) = None then Inl NullPointer
      else Inr \<lparr>owner_m = Some i, key_m = key\<rparr>)"

text \<open>\<open>field_proxy::operator=\<close>: \<^verbatim>\<open>m[key_] = std::any(value)\<close>.\<close>

definition proxy_assign ::
  "('a, 'u) any_type \<Rightarrow> field_proxy \<Rightarrow> 'a \<Rightarrow> ('v, 'u, 'd) state \<Rightarrow> fault + ('v, 'u, 'd) state" where
  "proxy_assign t px v s =
     (case owner_m px of
        None \<Rightarrow> Inl NullPointer
      | Some i \<Rightarrow>
          if ptr_m (slots s i) = None then Inl NullPointer
          else Inr (slot_upd i
                 (\<lambda>c. c\<lparr>dyn_fields_m := Some ((ensure_fields c)(key_m px \<mapsto> box t v))\<rparr>) s))"

text \<open>\<open>field_proxy::as<U>\<close>, which the implicit conversion \<open>operator U\<close> calls.\<close>

definition proxy_as ::
  "('a, 'u) any_type \<Rightarrow> field_proxy \<Rightarrow> ('v, 'u, 'd) state \<Rightarrow> fault + 'a" where
  "proxy_as t px s =
     (case owner_m px of
        None \<Rightarrow> Inl NoOwner
      | Some i \<Rightarrow>
          (case dyn_fields_m (slots s i) of
             None \<Rightarrow> Inl NoFieldsMap
           | Some m \<Rightarrow>
               (case m (key_m px) of
                  None \<Rightarrow> Inl (KeyNotFound (key_m px))
                | Some u \<Rightarrow>
                    (case unbox t u of None \<Rightarrow> Inl BadAnyCast | Some x \<Rightarrow> Inr x))))"

text \<open>\<open>field_proxy::exists\<close>.\<close>

definition proxy_exists :: "field_proxy \<Rightarrow> ('v, 'u, 'd) state \<Rightarrow> bool" where
  "proxy_exists px s =
     (case owner_m px of
        None \<Rightarrow> False
      | Some i \<Rightarrow>
          (case dyn_fields_m (slots s i) of
             None \<Rightarrow> False
           | Some m \<Rightarrow> m (key_m px) \<noteq> None))"

text \<open>The three attribute operations as the callers write them:
  \<^verbatim>\<open>ptr[key] = value\<close>, \<^verbatim>\<open>ptr[key].as<U>()\<close> and \<^verbatim>\<open>ptr[key].exists()\<close>.\<close>

definition set_field ::
  "('a, 'u) any_type \<Rightarrow> slot_id \<Rightarrow> string \<Rightarrow> 'a \<Rightarrow> ('v, 'u, 'd) state \<Rightarrow>
   fault + ('v, 'u, 'd) state" where
  "set_field t i key v s =
     (case subscript i key s of Inl e \<Rightarrow> Inl e | Inr px \<Rightarrow> proxy_assign t px v s)"

definition get_field ::
  "('a, 'u) any_type \<Rightarrow> slot_id \<Rightarrow> string \<Rightarrow> ('v, 'u, 'd) state \<Rightarrow> fault + 'a" where
  "get_field t i key s =
     (case subscript i key s of Inl e \<Rightarrow> Inl e | Inr px \<Rightarrow> proxy_as t px s)"

definition field_exists ::
  "slot_id \<Rightarrow> string \<Rightarrow> ('v, 'u, 'd) state \<Rightarrow> fault + bool" where
  "field_exists i key s =
     (case subscript i key s of Inl e \<Rightarrow> Inl e | Inr px \<Rightarrow> Inr (proxy_exists px s))"


section \<open>Dynamic functions\<close>

definition ensure_fns ::
  "('u, 'd) child_unique_ptr \<Rightarrow> (string \<rightharpoonup> ('u list \<Rightarrow> fault + 'u))" where
  "ensure_fns c = (case dyn_fns_m c of None \<Rightarrow> Map.empty | Some m \<Rightarrow> m)"

text \<open>\<open>call_fn_from_anys<R, A, B>\<close> for a callable of two arguments and a non-void result:
  the size check, then \<^verbatim>\<open>std::any(fn(std::any_cast<A>(args[0]), std::any_cast<B>(args[1])))\<close>.\<close>

definition call_fn_from_anys ::
  "('a, 'u) any_type \<Rightarrow> ('b, 'u) any_type \<Rightarrow> ('r, 'u) any_type \<Rightarrow> ('a \<Rightarrow> 'b \<Rightarrow> 'r) \<Rightarrow>
   'u list \<Rightarrow> fault + 'u" where
  "call_fn_from_anys ta tb tr fn args =
     (if length args \<noteq> 2 then Inl ArgCountMismatch
      else
        (case unbox ta (args ! 0) of
           None \<Rightarrow> Inl BadAnyCast
         | Some a \<Rightarrow>
             (case unbox tb (args ! 1) of
                None \<Rightarrow> Inl BadAnyCast
              | Some b \<Rightarrow> Inr (box tr (fn a b)))))"

text \<open>\<open>def<R, A, B>(name, f)\<close>; like the source it does not look at \<open>ptr_\<close>.\<close>

definition def ::
  "('a, 'u) any_type \<Rightarrow> ('b, 'u) any_type \<Rightarrow> ('r, 'u) any_type \<Rightarrow> slot_id \<Rightarrow> string \<Rightarrow>
   ('a \<Rightarrow> 'b \<Rightarrow> 'r) \<Rightarrow> ('v, 'u, 'd) state \<Rightarrow> ('v, 'u, 'd) state" where
  "def ta tb tr i name f s =
     slot_upd i
       (\<lambda>c. c\<lparr>dyn_fns_m := Some ((ensure_fns c)(name \<mapsto> call_fn_from_anys ta tb tr f))\<rparr>) s"

record 'u call_result =
  value_m :: 'u
  has_value_m :: bool

text \<open>\<open>call_result::as<U>\<close> for a non-void \<open>U\<close>.\<close>

definition call_result_as :: "('r, 'u) any_type \<Rightarrow> 'u call_result \<Rightarrow> fault + 'r" where
  "call_result_as t r =
     (if \<not> has_value_m r then Inl NoValue
      else (case unbox t (value_m r) of None \<Rightarrow> Inl BadAnyCast | Some x \<Rightarrow> Inr x))"

text \<open>\<open>operator()(name, args...)\<close>: \<open>packed\<close> is the vector of the arguments, each wrapped
  in \<open>std::any\<close>. The method is \<open>const\<close>: it reads the state and returns no new one.\<close>

definition invoke ::
  "slot_id \<Rightarrow> string \<Rightarrow> 'u list \<Rightarrow> ('v, 'u, 'd) state \<Rightarrow> fault + 'u call_result" where
  "invoke i name packed s =
     (if ptr_m (slots s i) = None then Inl NullPointer
      else
        (case dyn_fns_m (slots s i) of
           None \<Rightarrow> Inl NoFunctionsDefined
         | Some m \<Rightarrow>
             (case m name of
                None \<Rightarrow> Inl (FunctionNotFound name)
              | Some f \<Rightarrow>
                  (case f packed of
                     Inl e \<Rightarrow> Inl e
                   | Inr ret \<Rightarrow> Inr \<lparr>value_m = ret, has_value_m = True\<rparr>))))"

text \<open>\<open>call<R>(name, args...)\<close>.\<close>

definition call ::
  "('r, 'u) any_type \<Rightarrow> slot_id \<Rightarrow> string \<Rightarrow> 'u list \<Rightarrow> ('v, 'u, 'd) state \<Rightarrow> fault + 'r" where
  "call t i name packed s =
     (case invoke i name packed s of Inl e \<Rightarrow> Inl e | Inr r \<Rightarrow> call_result_as t r)"


section \<open>Equality\<close>

text \<open>What \<open>T\<close> offers to the two \<open>requires\<close> probes of \<open>equals\<close>: a member \<open>equals\<close>, an
  \<open>operator==\<close>, both or neither.\<close>

record 'v eq_capability =
  equals_method :: "('v \<Rightarrow> 'v \<Rightarrow> bool) option"
  eq_operator :: "('v \<Rightarrow> 'v \<Rightarrow> bool) option"

definition equals ::
  "'v eq_capability \<Rightarrow> slot_id \<Rightarrow> slot_id \<Rightarrow> ('v, 'u, 'd) state \<Rightarrow> bool" where
  "equals cap i other s =
     (case (ptr_m (slots s i), ptr_m (slots s other)) of
        (None, None) \<Rightarrow> True
      | (None, Some y) \<Rightarrow> False
      | (Some x, None) \<Rightarrow> False
      | (Some x, Some y) \<Rightarrow>
          (case equals_method cap of
             Some f \<Rightarrow> f (contents s x) (contents s y)
           | None \<Rightarrow>
               (case eq_operator cap of
                  Some g \<Rightarrow> g (contents s x) (contents s y)
                | None \<Rightarrow> x = y)))"

definition full_equals ::
  "'v eq_capability \<Rightarrow> slot_id \<Rightarrow> slot_id \<Rightarrow> ('v, 'u, 'd) state \<Rightarrow> bool" where
  "full_equals cap i other s = equals cap i other s"


section \<open>Back-reference chains\<close>

text \<open>\<open>on_chain h x cur\<close>: the walk that starts at \<open>cur\<close> and follows \<open>parent\<close> reaches the
  object \<open>x\<close>. \<open>chain_ends h cur\<close>: that walk reaches a null pointer.\<close>

inductive on_chain :: "(addr \<Rightarrow> addr option) \<Rightarrow> addr \<Rightarrow> addr option \<Rightarrow> bool"
  for h :: "addr \<Rightarrow> addr option" and x :: addr where
  here: "on_chain h x (Some x)"
| further: "on_chain h x (h c) \<Longrightarrow> on_chain h x (Some c)"

inductive chain_ends :: "(addr \<Rightarrow> addr option) \<Rightarrow> addr option \<Rightarrow> bool"
  for h :: "addr \<Rightarrow> addr option" where
  at_null: "chain_ends h None"
| step: "chain_ends h (h c) \<Longrightarrow> chain_ends h (Some c)"

text \<open>\<open>dies_in members owned a j\<close>: the instance \<open>j\<close> is destroyed when the object \<open>a\<close> is deleted,
  as a member of \<open>a\<close> or of an object that a member of \<open>a\<close> owns, and so on.
  \<open>cascade_ends members owned as\<close>: the deletion of the objects \<open>as\<close> comes to an end.\<close>

inductive dies_in ::
  "(addr \<Rightarrow> slot_id list) \<Rightarrow> (slot_id \<Rightarrow> addr option) \<Rightarrow> addr \<Rightarrow> slot_id \<Rightarrow> bool"
  for members :: "addr \<Rightarrow> slot_id list" and owned :: "slot_id \<Rightarrow> addr option" where
  member: "j \<in> set (members a) \<Longrightarrow> dies_in members owned a j"
| deeper: "k \<in> set (members a) \<Longrightarrow> owned k = Some b \<Longrightarrow> dies_in members owned b j \<Longrightarrow>
           dies_in members owned a j"

inductive cascade_ends ::
  "(addr \<Rightarrow> slot_id list) \<Rightarrow> (slot_id \<Rightarrow> addr option) \<Rightarrow> addr list \<Rightarrow> bool"
  for members :: "addr \<Rightarrow> slot_id list" and owned :: "slot_id \<Rightarrow> addr option" where
  nothing_left: "cascade_ends members owned []"
| delete_next: "cascade_ends members owned (List.map_filter owned (members a) @ rest) \<Longrightarrow>
                cascade_ends members owned (a # rest)"


text \<open>Acyclicity (invariant 3 of the data model): no object lies on its own back-reference
  chain, the chain that starts at its \<open>parent\<close>.\<close>

definition acyclic_chains :: "(addr \<Rightarrow> addr option) \<Rightarrow> bool" where
  "acyclic_chains h \<longleftrightarrow> (\<forall>x. \<not> on_chain h x (h x))"


section \<open>The states of the test suite\<close>

text \<open>The test type \<^verbatim>\<open>struct Node : Backtraceable<Node>\<close> with \<open>child_unique_ptr<Node, Node>\<close>
  members; the values stored in \<open>std::any\<close> by the tests; \<open>std::default_delete\<close> is \<open>unit\<close>.\<close>

datatype any_value = AnyInt int | AnyString string | AnyBool bool | AnyEmpty

definition any_int :: "(int, any_value) any_type" where
  "any_int = \<lparr>box = AnyInt, unbox = (\<lambda>u. case u of AnyInt n \<Rightarrow> Some n | _ \<Rightarrow> None)\<rparr>"

definition any_string :: "(string, any_value) any_type" where
  "any_string = \<lparr>box = AnyString, unbox = (\<lambda>u. case u of AnyString n \<Rightarrow> Some n | _ \<Rightarrow> None)\<rparr>"

definition node_traits :: type_traits where
  "node_traits = \<lparr>is_backtraceable = True, is_parent_base = True\<rparr>"

definition null_slot :: "(any_value, unit) child_unique_ptr" where
  "null_slot = \<lparr>parent_m = None, ptr_m = None, deleter_m = (),
                 dyn_fields_m = None, dyn_fns_m = None\<rparr>"

text \<open>\<^verbatim>\<open>Node root(1)\<close> alone, before its members are constructed.\<close>

definition no_objects :: "(int, any_value, unit) state" where
  "no_objects =
     \<lparr>parent = Map.empty, contents = (\<lambda>_. 0)(1 := 1), destroyed = [], slots = (\<lambda>_. null_slot)\<rparr>"

text \<open>\<^verbatim>\<open>Node root(1); root.left.emplace(2);\<close> with \<open>root\<close> at address 1 and the new node at
  address 2; instance 0 is \<open>root.left\<close>, instance 1 is \<open>root.left->left\<close>.\<close>

definition root_and_child :: "(int, any_value, unit) state" where
  "root_and_child =
     \<lparr>parent = [2 \<mapsto> 1],
      contents = (\<lambda>_. 0)(1 := 1, 2 := 2),
      destroyed = [],
      slots = (\<lambda>_. null_slot)
        (0 := null_slot\<lparr>parent_m := Some 1, ptr_m := Some 2\<rparr>,
         1 := null_slot\<lparr>parent_m := Some 2\<rparr>)\<rparr>"

text \<open>\<open>root.left\<close> (instance 0) owns the node at address 2 and carries the dynamic field
  \<^verbatim>\<open>root.left["hp"] = 100\<close>; \<open>root.right\<close> (instance 1) is empty; address 3 holds a detached
  \<^verbatim>\<open>new Node(10)\<close>.\<close>

definition hp_slot :: "(any_value, unit) child_unique_ptr" where
  "hp_slot = \<lparr>parent_m = Some 1, ptr_m = Some 2, deleter_m = (),
               dyn_fields_m = Some [''hp'' \<mapsto> AnyInt 100], dyn_fns_m = None\<rparr>"

definition child_with_hp :: "(int, any_value, unit) state" where
  "child_with_hp =
     \<lparr>parent = [2 \<mapsto> 1],
      contents = (\<lambda>_. 0)(1 := 1, 2 := 2, 3 := 10),
      destroyed = [],
      slots = (\<lambda>_. null_slot)(0 := hp_slot, 1 := null_slot\<lparr>parent_m := Some 1\<rparr>)\<rparr>"


text \<open>\<^verbatim>\<open>root.left.emplace(2); root.right.emplace(3);\<close> with the field \<open>hp\<close> on \<open>root.left\<close> and
  \<^verbatim>\<open>root.right.def<int, int, int>("add", ...)\<close>.\<close>

definition sum_slot :: "(any_value, unit) child_unique_ptr" where
  "sum_slot = \<lparr>parent_m = Some 1, ptr_m = Some 3, deleter_m = (),
               dyn_fields_m = None,
               dyn_fns_m = Some [''add'' \<mapsto> call_fn_from_anys any_int any_int any_int (+)]\<rparr>"

definition two_children :: "(int, any_value, unit) state" where
  "two_children =
     \<lparr>parent = [2 \<mapsto> 1, 3 \<mapsto> 1],
      contents = (\<lambda>_. 0)(1 := 1, 2 := 2, 3 := 3),
      destroyed = [],
      slots = (\<lambda>_. null_slot)(0 := hp_slot, 1 := sum_slot)\<rparr>"

text \<open>\<open>root.left\<close> (instance 0) owns the child at address 2, whose \<open>left\<close> (instance 1) owns a
  grandchild at address 3.\<close>

definition child_and_grandchild :: "(int, any_value, unit) state" where
  "child_and_grandchild =
     \<lparr>parent = [2 \<mapsto> 1, 3 \<mapsto> 2],
      contents = (\<lambda>_. 0)(1 := 1, 2 := 2, 3 := 3),
      destroyed = [],
      slots = (\<lambda>_. null_slot)
        (0 := null_slot\<lparr>parent_m := Some 1, ptr_m := Some 2\<rparr>,
         1 := hp_slot\<lparr>parent_m := Some 2, ptr_m := Some 3\<rparr>)\<rparr>"


definition nested_layout :: "addr \<Rightarrow> slot_id list" where
  "nested_layout = (\<lambda>_. [])(1 := [0], 2 := [1])"

text \<open>\<open>Node\<close> has an \<open>operator==\<close> that compares \<open>value\<close> and no member \<open>equals\<close>; a type with
  neither falls back to pointer identity.\<close>

definition node_eq :: "int eq_capability" where
  "node_eq = \<lparr>equals_method = None, eq_operator = Some (=)\<rparr>"

definition no_eq :: "int eq_capability" where
  "no_eq = \<lparr>equals_method = None, eq_operator = None\<rparr>"

section \<open>Properties of the cycle guard\<close>

inductive_simps on_chain_None [simp]: "on_chain h x None"
inductive_simps on_chain_Some: "on_chain h x (Some c)"
inductive_simps chain_ends_Some: "chain_ends h (Some c)"

lemma walk_found: "on_chain h x cur \<Longrightarrow> cycle_walk h (Some x) cur = Some True"
  by (induction rule: on_chain.induct) (simp_all add: cycle_walk.simps)

lemma walk_ends: "chain_ends h cur \<Longrightarrow> \<exists>b. cycle_walk h ap cur = Some b"
proof (induction rule: chain_ends.induct)
  case at_null
  show ?case by (subst cycle_walk.simps) auto
next
  case (step c)
  then obtain b where "cycle_walk h ap (h c) = Some b" by blast
  then show ?case by (subst cycle_walk.simps) auto
qed

lemma walk_sound:
  assumes run: "cycle_walk h ap cur = Some b"
  shows "(b \<longrightarrow> (\<exists>x. ap = Some x \<and> on_chain h x cur)) \<and> (\<not> b \<longrightarrow> chain_ends h cur)"
proof (rule cycle_walk.raw_induct
    [where P = "\<lambda>h ap cur b. (b \<longrightarrow> (\<exists>x. ap = Some x \<and> on_chain h x cur)) \<and>
                            (\<not> b \<longrightarrow> chain_ends h cur)", OF _ run], goal_cases)
  case (1 walk h ap cur b)
  show ?case
  proof (cases cur)
    case None
    with 1(2) have "\<not> b" by simp
    with None show ?thesis by (simp add: chain_ends.at_null)
  next
    case (Some c)
    show ?thesis
    proof (cases "cur = ap")
      case True
      with Some 1(2) show ?thesis by (auto intro: on_chain.here)
    next
      case False
      with Some 1(2) have "walk h ap (h c) = Some b" by simp
      from 1(1)[OF this] Some show ?thesis
        by (auto intro: on_chain.further chain_ends.step)
    qed
  qed
qed
lemma walk_True_iff: "cycle_walk h (Some x) cur = Some True \<longleftrightarrow> on_chain h x cur"
  using walk_found walk_sound by fastforce

lemma walk_False_iff:
  "cycle_walk h (Some x) cur = Some False \<longleftrightarrow> \<not> on_chain h x cur \<and> chain_ends h cur"
proof
  assume "cycle_walk h (Some x) cur = Some False"
  then show "\<not> on_chain h x cur \<and> chain_ends h cur"
    using walk_sound[of h "Some x" cur False] walk_found[of h x cur] by auto
next
  assume a: "\<not> on_chain h x cur \<and> chain_ends h cur"
  then obtain b where b: "cycle_walk h (Some x) cur = Some b"
    using walk_ends by blast
  with a walk_sound[OF b] show "cycle_walk h (Some x) cur = Some False" by auto
qed

lemma walk_None_iff:
  "cycle_walk h (Some x) cur = None \<longleftrightarrow> \<not> on_chain h x cur \<and> \<not> chain_ends h cur"
proof -
  have "cycle_walk h (Some x) cur = None \<longleftrightarrow>
        cycle_walk h (Some x) cur \<noteq> Some True \<and> cycle_walk h (Some x) cur \<noteq> Some False"
    by (cases "cycle_walk h (Some x) cur") auto
  also have "\<dots> \<longleftrightarrow> \<not> on_chain h x cur \<and> \<not> chain_ends h cur"
    unfolding walk_True_iff walk_False_iff by blast
  finally show ?thesis .
qed

lemma self_loop_no_end: "chain_ends h cur \<Longrightarrow> h a = Some a \<Longrightarrow> cur \<noteq> Some a"
  by (induction rule: chain_ends.induct) auto

lemma self_loop_only: "on_chain h x cur \<Longrightarrow> h a = Some a \<Longrightarrow> cur = Some a \<Longrightarrow> x = a"
  by (induction rule: on_chain.induct) auto



lemma slots_adopt:
  "slots (adopt tr i p s) = (slots s)(i := (slots s i)\<lparr>ptr_m := p\<rparr>)"
  by (auto simp: adopt_def set_parent_on_child_def clear_parent_on_child_def slot_upd_def Let_def
      split: option.splits)




lemma parent_release:
  "parent (snd (release tr i s)) =
     (case ptr_m (slots s i) of
        None \<Rightarrow> parent s
      | Some c \<Rightarrow> if is_backtraceable tr then (parent s)(c := None) else parent s)"
  by (auto simp: release_def clear_parent_on_child_def slot_upd_def Let_def split: option.splits)

lemma reset_total:
  "chain_ends (parent s) (parent_m (slots s i)) \<Longrightarrow> reset tr i p s \<noteq> None"
  using walk_ends [of "parent s" "parent_m (slots s i)" p]
  by (auto simp: reset_def would_create_cycle_def split: option.splits bool.splits)


lemma on_chain_trans:
  "on_chain g x cur \<Longrightarrow> on_chain g c (g x) \<Longrightarrow> on_chain g c cur"
  by (induction rule: on_chain.induct) (auto intro: on_chain.further)

lemma on_chain_new_edge:
  assumes "on_chain (g(c := v)) x cur" and "\<not> on_chain g c v"
  shows "on_chain g x cur \<or> (on_chain g c cur \<and> on_chain g x v)"
  using assms(1)
proof (induction rule: on_chain.induct)
  case here
  show ?case by (simp add: on_chain.here)
next
  case (further a)
  show ?case
  proof (cases "a = c")
    case True
    with further.IH assms(2) have "on_chain g x v" by simp
    with True show ?thesis by (simp add: on_chain.here)
  next
    case False
    then have "(g(c := v)) a = g a" by simp
    with further.IH have "on_chain g x (g a) \<or> (on_chain g c (g a) \<and> on_chain g x v)"
      by (simp only:)
    then show ?thesis by (auto intro: on_chain.further)
  qed
qed

lemma acyclic_new_edge:
  assumes "acyclic_chains g" and "\<not> on_chain g c v"
  shows "acyclic_chains (g(c := v))"
  unfolding acyclic_chains_def
proof (intro allI notI)
  fix x
  assume cyc: "on_chain (g(c := v)) x ((g(c := v)) x)"
  from on_chain_new_edge [OF cyc assms(2)]
  have d: "on_chain g x ((g(c := v)) x) \<or> (on_chain g c ((g(c := v)) x) \<and> on_chain g x v)" .
  show False
  proof (cases "x = c")
    case True
    with d assms(2) show False by simp
  next
    case False
    then have e: "(g(c := v)) x = g x" by simp
    from d have "on_chain g x (g x) \<or> (on_chain g c (g x) \<and> on_chain g x v)"
      unfolding e .
    then show False
    proof
      assume "on_chain g x (g x)"
      with assms(1) show False by (simp add: acyclic_chains_def)
    next
      assume "on_chain g c (g x) \<and> on_chain g x v"
      then have "on_chain g c v" using on_chain_trans by blast
      with assms(2) show False ..
    qed
  qed
qed

lemma acyclic_cut: "acyclic_chains g \<Longrightarrow> acyclic_chains (g(c := None))"
  by (rule acyclic_new_edge) simp_all

lemma on_chain_cut: "on_chain (g(a := None)) x cur \<Longrightarrow> on_chain g x cur"
  using on_chain_new_edge [of g a None x cur] by auto

lemma parent_adopt:
  "parent (adopt tr i p s) =
     (if is_backtraceable tr then
        (let g = (case ptr_m (slots s i) of None \<Rightarrow> parent s | Some old \<Rightarrow> (parent s)(old := None))
         in case p of None \<Rightarrow> g | Some c \<Rightarrow> g(c := parent_m (slots s i)))
      else parent s)"
  by (auto simp: adopt_def set_parent_on_child_def clear_parent_on_child_def slot_upd_def Let_def
      split: option.splits)

lemma adopt_preserves_acyclic:
  assumes "acyclic_chains (parent s)"
    and "\<forall>c. p = Some c \<longrightarrow> \<not> on_chain (parent s) c (parent_m (slots s i))"
  shows "acyclic_chains (parent (adopt tr i p s))"
proof (cases "is_backtraceable tr")
  case False
  with assms(1) show ?thesis by (simp add: parent_adopt)
next
  case True
  define g where "g = (case ptr_m (slots s i) of None \<Rightarrow> parent s
                        | Some old \<Rightarrow> (parent s)(old := None))"
  have g: "acyclic_chains g"
    using assms(1) by (auto simp: g_def acyclic_cut split: option.splits)
  have sub: "on_chain g x cur \<Longrightarrow> on_chain (parent s) x cur" for x cur
    by (auto simp: g_def dest: on_chain_cut split: option.splits)
  show ?thesis
  proof (cases p)
    case None
    with True g show ?thesis by (simp add: parent_adopt g_def)
  next
    case (Some c)
    with assms(2) sub have "\<not> on_chain g c (parent_m (slots s i))" by blast
    from acyclic_new_edge [OF g this] True Some show ?thesis
      by (simp add: parent_adopt g_def)
  qed
qed

lemma reset_preserves_acyclic:
  assumes "is_backtraceable tr \<longrightarrow> is_parent_base tr"
    and "acyclic_chains (parent s)"
    and "reset tr i p s = Some s'"
  shows "acyclic_chains (parent s')"
proof (cases "s' = s")
  case True
  with assms(2) show ?thesis by simp
next
  case False
  with assms(3) have s': "s' = adopt tr i p s"
    by (auto simp: reset_def split: if_splits option.splits bool.splits)
  show ?thesis
  proof (cases "is_backtraceable tr")
    case False
    with assms(2) show ?thesis by (simp add: s' parent_adopt)
  next
    case True
    with assms(1) have pb: "is_parent_base tr" by simp
    have "\<not> on_chain (parent s) c (parent_m (slots s i))" if "p = Some c" for c
    proof (cases "parent_m (slots s i)")
      case None
      then show ?thesis by simp
    next
      case (Some P)
      with that assms(3) \<open>s' \<noteq> s\<close> True pb
      have "cycle_walk (parent s) (Some c) (Some P) = Some False"
        by (auto simp: reset_def would_create_cycle_def split: option.splits bool.splits)
      then show ?thesis by (simp add: walk_False_iff Some)
    qed
    then have "\<forall>c. p = Some c \<longrightarrow> \<not> on_chain (parent s) c (parent_m (slots s i))" by blast
    from adopt_preserves_acyclic [OF assms(2) this] show ?thesis by (simp add: s')
  qed
qed

lemma release_preserves_acyclic:
  "acyclic_chains (parent s) \<Longrightarrow> acyclic_chains (parent (snd (release tr i s)))"
  by (auto simp: parent_release acyclic_cut split: option.splits)

lemma move_assign_preserves_acyclic:
  assumes "is_backtraceable tr \<longrightarrow> is_parent_base tr"
    and "acyclic_chains (parent s)"
    and "move_assign tr members i other s = Some (Completed s')"
  shows "acyclic_chains (parent s')"
proof (cases "i = other")
  case True
  with assms show ?thesis by (simp add: move_assign_def)
next
  case False
  obtain p s1 where rel: "release tr other s = (p, s1)" by (cases "release tr other s")
  then have "s1 = snd (release tr other s)" by simp
  with assms(2) have a1: "acyclic_chains (parent s1)" by (simp add: release_preserves_acyclic)
  from assms(3) False rel obtain s2 where r: "reset tr i p s1 = Some s2" and "parent s' = parent s2"
    by (auto simp: move_assign_def Let_def split: option.splits if_splits)
  with reset_preserves_acyclic [OF assms(1) a1 r] show ?thesis by simp
qed







lemma emplace_preserves_acyclic:
  assumes "is_backtraceable tr \<longrightarrow> is_parent_base tr"
    and "acyclic_chains (parent s)"
    and "emplace tr i a v s = Some s'"
  shows "acyclic_chains (parent s')"
proof -
  have "acyclic_chains ((parent s)(a := None))"
    using assms(2) by (rule acyclic_cut)
  then show ?thesis
    using assms(1,3) reset_preserves_acyclic
      [of tr "s\<lparr>parent := (parent s)(a := None), contents := (contents s)(a := v)\<rparr>" i "Some a" s']
    by (simp add: emplace_def)
qed

lemma construct_adopt_preserves_acyclic:
  assumes "is_backtraceable tr \<longrightarrow> is_parent_base tr"
    and "acyclic_chains (parent s)"
    and "construct_adopt tr i par p d s = Some s'"
  shows "acyclic_chains (parent s')"
  using assms reset_preserves_acyclic [of tr "construct i par d s" i p s']
  by (simp add: construct_adopt_def construct_def)

lemma assign_unique_preserves_acyclic:
  assumes "is_backtraceable tr \<longrightarrow> is_parent_base tr"
    and "acyclic_chains (parent s)"
    and "assign_unique tr i p s = Some s'"
  shows "acyclic_chains (parent s')"
  using assms reset_preserves_acyclic [of tr s i p s']
  by (simp add: assign_unique_def)

text \<open>The state \<open>root_and_child\<close> is what the constructors and \<open>emplace\<close> build.\<close>

lemma root_and_child_built:
  "emplace node_traits 0 2 2
     (construct 1 (Some 2) () (construct 0 (Some 1) () no_objects)) = Some root_and_child"
proof -
  have w: "would_create_cycle node_traits (Map.empty(2 := None)) (Some 2) (Some 1) = Some False"
    by (simp add: would_create_cycle_def node_traits_def walk_False_iff
        on_chain_Some chain_ends_Some chain_ends.at_null)
  show ?thesis
    using w
    by (auto simp: emplace_def construct_def no_objects_def reset_def adopt_def
        set_parent_on_child_def clear_parent_on_child_def slot_upd_def Let_def
        root_and_child_def null_slot_def node_traits_def fun_eq_iff)
qed

text \<open>
  Claim C3, as the code has it. For a type \<open>T\<close> that derives from \<open>Backtraceable<Parent>\<close> and
  from \<open>Parent\<close>, the walk from the candidate owner \<open>P\<close> visits \<open>P\<close>, \<open>P\<close>'s parent and so on,
  and stops at the first node equal to the adoptee \<open>C\<close> or at a null pointer; it keeps no
  record of the nodes it has seen. So it answers "refuse" exactly when \<open>C\<close> is on the chain
  of \<open>P\<close>, answers "allow" exactly when \<open>C\<close> is not on the chain and the chain reaches a null
  pointer, and does not return exactly when \<open>C\<close> is not on the chain and the chain never
  reaches a null pointer.
\<close>

theorem would_create_cycle_walk:
  assumes "is_backtraceable tr" and "is_parent_base tr"
  shows "(would_create_cycle tr h (Some C) (Some P) = Some True \<longleftrightarrow> on_chain h C (Some P)) \<and>
         (would_create_cycle tr h (Some C) (Some P) = Some False \<longleftrightarrow>
            \<not> on_chain h C (Some P) \<and> chain_ends h (Some P)) \<and>
         (would_create_cycle tr h (Some C) (Some P) = None \<longleftrightarrow>
            \<not> on_chain h C (Some P) \<and> \<not> chain_ends h (Some P))"
  using assms
  by (simp add: would_create_cycle_def walk_True_iff walk_False_iff walk_None_iff)

theorem would_create_cycle_walk_witness:
  "would_create_cycle node_traits [2 \<mapsto> 1] (Some 1) (Some 2) = Some True \<and>
   would_create_cycle node_traits [2 \<mapsto> 1] (Some 3) (Some 2) = Some False"
  using would_create_cycle_walk [of node_traits "[2 \<mapsto> 1]" 1 2]
        would_create_cycle_walk [of node_traits "[2 \<mapsto> 1]" 3 2]
  by (simp add: node_traits_def on_chain_Some chain_ends_Some chain_ends.at_null)

text \<open>Claim C3 as stated fails: on the chain of a node that is its own parent the walk for a
  different adoptee never returns.\<close>

theorem would_create_cycle_diverges:
  "would_create_cycle node_traits [1 \<mapsto> 1] (Some 2) (Some 1) = None"
proof -
  have "\<not> on_chain [1 \<mapsto> 1::nat] 2 (Some 1)"
    using self_loop_only [of "[1 \<mapsto> 1]" 2 "Some 1" 1] by auto
  moreover have "\<not> chain_ends [1 \<mapsto> 1::nat] (Some 1)"
    using self_loop_no_end [of "[1 \<mapsto> 1]" "Some 1" 1] by auto
  ultimately show ?thesis
    by (simp add: would_create_cycle_def node_traits_def walk_None_iff)
qed


section \<open>Properties of the ownership operations\<close>

text \<open>
  Claim C1. When cycle detection applies to \<open>T\<close>, the instance has a recorded parent \<open>P\<close> and
  the candidate \<open>C\<close> lies on the back-reference chain of \<open>P\<close>, \<open>reset(C)\<close> returns and leaves
  the whole state as it was: the previous value stays owned, nothing is destroyed, and no
  error is raised. In the scenario of the tests (\<open>root\<close> owns a child through \<open>root.left\<close>,
  then \<^verbatim>\<open>root.left->left.reset(&root)\<close>) the child's slot stays empty and \<open>root.left\<close> still
  owns the child.
\<close>

theorem reset_refuses_cycle:
  assumes "is_backtraceable tr" and "is_parent_base tr"
    and "parent_m (slots s i) = Some P"
    and "on_chain (parent s) C (Some P)"
  shows "reset tr i (Some C) s = Some s"
  using assms by (simp add: reset_def would_create_cycle_def walk_found)

theorem reset_refuses_cycle_witness:
  "reset node_traits 1 (Some 1) root_and_child = Some root_and_child \<and>
   ptr_m (slots root_and_child 1) = None \<and>
   ptr_m (slots root_and_child 0) = Some 2 \<and>
   parent root_and_child 2 = Some 1"
proof -
  have "on_chain (parent root_and_child) 1 (Some 2)"
    by (simp add: root_and_child_def on_chain_Some)
  then show ?thesis
    using reset_refuses_cycle [of node_traits root_and_child 1 2 1]
    by (simp add: node_traits_def root_and_child_def null_slot_def)
qed

text \<open>
  Claim C5. For an instance that owns a value, \<open>release\<close> returns that value's address,
  leaves the instance empty, calls no deleter and does not touch the value's contents, keeps
  both dynamic maps on the instance, and (for a \<open>Backtraceable\<close> value) leaves the value's
  back-reference empty.
\<close>

theorem release_detaches:
  assumes "ptr_m (slots s i) = Some c"
  shows "fst (release tr i s) = Some c \<and>
         ptr_m (slots (snd (release tr i s)) i) = None \<and>
         destroyed (snd (release tr i s)) = destroyed s \<and>
         contents (snd (release tr i s)) = contents s \<and>
         dyn_fields_m (slots (snd (release tr i s)) i) = dyn_fields_m (slots s i) \<and>
         dyn_fns_m (slots (snd (release tr i s)) i) = dyn_fns_m (slots s i) \<and>
         (is_backtraceable tr \<longrightarrow> parent (snd (release tr i s)) c = None)"
  using assms
  by (simp add: release_def clear_parent_on_child_def slot_upd_def Let_def)

theorem release_detaches_witness:
  "fst (release node_traits 0 child_with_hp) = Some 2 \<and>
   ptr_m (slots (snd (release node_traits 0 child_with_hp)) 0) = None \<and>
   destroyed (snd (release node_traits 0 child_with_hp)) = [] \<and>
   dyn_fields_m (slots (snd (release node_traits 0 child_with_hp)) 0) = Some [''hp'' \<mapsto> AnyInt 100] \<and>
   parent (snd (release node_traits 0 child_with_hp)) 2 = None"
proof -
  have "ptr_m (slots child_with_hp 0) = Some 2"
    by (simp add: child_with_hp_def hp_slot_def)
  from release_detaches [OF this, of node_traits] show ?thesis
    by (simp add: node_traits_def child_with_hp_def hp_slot_def)
qed

text \<open>
  Claim C7. Whenever \<open>reset\<close> returns, whatever pointer it was given and whether or not it
  replaced the owned value, the attribute map and the method map of every instance are what
  they were before the call; and \<open>reset\<close> does return whenever the chain of the recorded
  parent reaches a null pointer.
\<close>

theorem reset_keeps_dynamic_entries:
  shows "(reset tr i p s = Some s' \<longrightarrow>
            dyn_fields_m (slots s' j) = dyn_fields_m (slots s j) \<and>
            dyn_fns_m (slots s' j) = dyn_fns_m (slots s j)) \<and>
         (chain_ends (parent s) (parent_m (slots s i)) \<longrightarrow> reset tr i p s \<noteq> None)"
proof (intro conjI impI)
  assume "reset tr i p s = Some s'"
  then have "slots s' = slots s \<or> slots s' = (slots s)(i := (slots s i)\<lparr>ptr_m := p\<rparr>)"
    by (auto simp: reset_def slots_adopt split: if_splits option.splits bool.splits)
  then show "dyn_fields_m (slots s' j) = dyn_fields_m (slots s j)"
    and "dyn_fns_m (slots s' j) = dyn_fns_m (slots s j)"
    by auto
next
  assume "chain_ends (parent s) (parent_m (slots s i))"
  then show "reset tr i p s \<noteq> None" by (rule reset_total)
qed

theorem reset_keeps_dynamic_entries_witness:
  "reset node_traits 0 (Some 3) child_with_hp \<noteq> None \<and>
   ptr_m (slots child_with_hp 0) = Some 2 \<and>
   ptr_m (slots (the (reset node_traits 0 (Some 3) child_with_hp)) 0) = Some 3 \<and>
   dyn_fields_m (slots (the (reset node_traits 0 (Some 3) child_with_hp)) 0) =
     Some [''hp'' \<mapsto> AnyInt 100]"
proof -
  have w: "would_create_cycle node_traits (parent child_with_hp) (Some 3) (Some 1) = Some False"
    by (simp add: would_create_cycle_def node_traits_def walk_False_iff child_with_hp_def
        on_chain_Some chain_ends_Some chain_ends.at_null)
  have r: "reset node_traits 0 (Some 3) child_with_hp =
             Some (adopt node_traits 0 (Some 3) child_with_hp)"
    using w by (simp add: reset_def child_with_hp_def hp_slot_def)
  from reset_keeps_dynamic_entries
         [of node_traits 0 "Some 3" child_with_hp "adopt node_traits 0 (Some 3) child_with_hp" 0] r
  show ?thesis
    by (simp add: slots_adopt) (simp add: child_with_hp_def hp_slot_def)
qed




text \<open>The other way in which move assignment departs from claim C4:
  \<^verbatim>\<open>root.left = std::move(root.left->left)\<close>, where \<open>root.left\<close> owns the child and the child's
  \<open>left\<close> owns a grandchild. \<open>reset\<close> deletes the child, and with it the child's member \<open>left\<close>,
  before the deleter and the maps of that member are read.\<close>

lemma move_assign_reads_destroyed:
  "move_assign node_traits nested_layout 0 1 child_and_grandchild = Some Use_after_destroy"
proof -
  have w: "would_create_cycle node_traits ([2 \<mapsto> 1, 3 \<mapsto> 2](3 := None)) (Some 3) (Some 1) =
             Some False"
    by (simp add: would_create_cycle_def node_traits_def walk_False_iff on_chain_Some
        chain_ends_Some chain_ends.at_null)
  have e: "destroy_cascade members owned [] dead = Some dead" for members owned dead
    by (subst destroy_cascade.simps) simp
  have c: "destroy_cascade nested_layout owned [2] [] = Some [1]" if "owned 1 = None" for owned
    using that
    by (subst destroy_cascade.simps) (simp add: nested_layout_def e)
  show ?thesis
    using w
    by (simp add: move_assign_def release_def clear_parent_on_child_def slot_upd_def Let_def
        reset_def adopt_def set_parent_on_child_def child_and_grandchild_def null_slot_def
        hp_slot_def node_traits_def c)
qed

text \<open>
  Claim C6. For two instances that do not own the same object (invariant 1 of the data
  model: unique ownership), \<open>swap\<close> exchanges the owned pointer, the deleter, the attribute
  map and the method map, leaves each instance's recorded parent in place, and afterwards
  the back-reference of each owned \<open>Backtraceable\<close> value is the recorded parent of the
  instance that now owns it. Swapping an instance with itself changes none of its members.
\<close>

theorem swap_exchanges:
  assumes "i \<noteq> j \<longrightarrow> ptr_m (slots s i) = None \<or> ptr_m (slots s i) \<noteq> ptr_m (slots s j)"
  shows "ptr_m (slots (swap tr i j s) i) = ptr_m (slots s j) \<and>
         ptr_m (slots (swap tr i j s) j) = ptr_m (slots s i) \<and>
         deleter_m (slots (swap tr i j s) i) = deleter_m (slots s j) \<and>
         deleter_m (slots (swap tr i j s) j) = deleter_m (slots s i) \<and>
         dyn_fields_m (slots (swap tr i j s) i) = dyn_fields_m (slots s j) \<and>
         dyn_fields_m (slots (swap tr i j s) j) = dyn_fields_m (slots s i) \<and>
         dyn_fns_m (slots (swap tr i j s) i) = dyn_fns_m (slots s j) \<and>
         dyn_fns_m (slots (swap tr i j s) j) = dyn_fns_m (slots s i) \<and>
         parent_m (slots (swap tr i j s) i) = parent_m (slots s i) \<and>
         parent_m (slots (swap tr i j s) j) = parent_m (slots s j) \<and>
         (is_backtraceable tr \<longrightarrow>
            (\<forall>x. ptr_m (slots (swap tr i j s) i) = Some x \<longrightarrow>
                 parent (swap tr i j s) x = parent_m (slots (swap tr i j s) i)) \<and>
            (\<forall>y. ptr_m (slots (swap tr i j s) j) = Some y \<longrightarrow>
                 parent (swap tr i j s) y = parent_m (slots (swap tr i j s) j)))"
  using assms
  by (cases "i = j")
     (auto simp: swap_def set_parent_on_child_def Let_def split: option.splits)

theorem swap_exchanges_witness:
  "ptr_m (slots (swap node_traits 0 1 two_children) 0) = Some 3 \<and>
   ptr_m (slots (swap node_traits 0 1 two_children) 1) = Some 2 \<and>
   dyn_fields_m (slots (swap node_traits 0 1 two_children) 1) = Some [''hp'' \<mapsto> AnyInt 100] \<and>
   dyn_fields_m (slots (swap node_traits 0 1 two_children) 0) = None \<and>
   parent (swap node_traits 0 1 two_children) 3 = Some 1 \<and>
   parent (swap node_traits 0 1 two_children) 2 = Some 1"
proof -
  have sl: "slots two_children 0 = hp_slot" "slots two_children 1 = sum_slot"
    by (simp_all add: two_children_def)
  have h: "(0::nat) \<noteq> 1 \<longrightarrow> ptr_m (slots two_children 0) = None \<or>
           ptr_m (slots two_children 0) \<noteq> ptr_m (slots two_children 1)"
    by (simp add: two_children_def hp_slot_def sum_slot_def)
  have bt: "is_backtraceable node_traits" by (simp add: node_traits_def)
  from swap_exchanges [OF h, of node_traits] bt show ?thesis
    by (simp add: sl hp_slot_def sum_slot_def del: One_nat_def)
qed

text \<open>
  Claim C2 at the input \<^verbatim>\<open>root.left.swap(root.left->left)\<close>, where \<open>root.left\<close> owns the
  child and the child's own \<open>left\<close> is empty: the chains are acyclic before the call, and
  after it the child is owned by its own member and is its own parent. \<open>swap\<close> sets both
  back-references without the guard that \<open>reset\<close> runs (lemma \<open>reset_preserves_acyclic\<close>).
\<close>

theorem swap_creates_cycle:
  "acyclic_chains (parent root_and_child) \<and>
   ptr_m (slots (swap node_traits 0 1 root_and_child) 1) = Some 2 \<and>
   parent (swap node_traits 0 1 root_and_child) 2 = Some 2 \<and>
   \<not> acyclic_chains (parent (swap node_traits 0 1 root_and_child))"
proof -
  have a: "acyclic_chains (parent root_and_child)"
    by (simp add: acyclic_chains_def root_and_child_def on_chain_Some)
  have p: "parent (swap node_traits 0 1 root_and_child) 2 = Some 2"
    by (simp add: swap_def set_parent_on_child_def Let_def root_and_child_def
        null_slot_def node_traits_def)
  have q: "ptr_m (slots (swap node_traits 0 1 root_and_child) 1) = Some 2"
    by (simp add: swap_def set_parent_on_child_def Let_def root_and_child_def
        null_slot_def node_traits_def)
  have "on_chain (parent (swap node_traits 0 1 root_and_child)) 2
          (parent (swap node_traits 0 1 root_and_child) 2)"
    unfolding p by (rule on_chain.here)
  then have "\<not> acyclic_chains (parent (swap node_traits 0 1 root_and_child))"
    unfolding acyclic_chains_def by blast
  with a p q show ?thesis by blast
qed


section \<open>Properties of the dynamic fields and functions\<close>

text \<open>
  Claim C9. On a non-empty instance and for a type whose \<open>any_cast\<close> recovers what was
  stored: \<open>exists(K)\<close> is false exactly when no entry is stored under \<open>K\<close> (in particular
  before the first \<open>set\<close>, when the map is not yet allocated); \<open>set(K, V)\<close> succeeds whatever was
  stored under \<open>K\<close> before, and afterwards \<open>exists(K)\<close> is true and the typed read returns
  \<open>V\<close>; the instance stays non-empty and the other keys are as before.
\<close>

theorem field_round_trip:
  assumes "ptr_m (slots s i) \<noteq> None" and "any_cast_ok t"
  shows "(field_exists i K s = Inr False \<longleftrightarrow>
            (\<forall>m. dyn_fields_m (slots s i) = Some m \<longrightarrow> m K = None)) \<and>
         (\<exists>s'. set_field t i K V s = Inr s' \<and>
               field_exists i K s' = Inr True \<and>
               get_field t i K s' = Inr V \<and>
               ptr_m (slots s' i) = ptr_m (slots s i) \<and>
               (\<forall>K'. K' \<noteq> K \<longrightarrow> field_exists i K' s' = field_exists i K' s))"
  using assms
  by (auto simp: field_exists_def set_field_def get_field_def subscript_def proxy_exists_def
      proxy_assign_def proxy_as_def slot_upd_def ensure_fields_def any_cast_ok_def
      split: option.splits)

theorem field_round_trip_witness:
  "field_exists 0 ''name'' child_with_hp = Inr False \<and>
   field_exists 0 ''hp'' child_with_hp = Inr True \<and>
   get_field any_int 0 ''hp'' child_with_hp = Inr 100 \<and>
   (\<exists>s'. set_field any_int 0 ''hp'' 7 child_with_hp = Inr s' \<and>
         field_exists 0 ''hp'' s' = Inr True \<and>
         get_field any_int 0 ''hp'' s' = Inr 7)"
proof -
  have ne: "ptr_m (slots child_with_hp 0) \<noteq> None"
    by (simp add: child_with_hp_def hp_slot_def)
  have ok: "any_cast_ok any_int"
    by (simp add: any_cast_ok_def any_int_def)
  have before: "field_exists 0 ''name'' child_with_hp = Inr False"
    using field_round_trip [OF ne ok, of "''name''"]
    by (simp add: child_with_hp_def hp_slot_def)
  have old: "field_exists 0 ''hp'' child_with_hp = Inr True \<and>
             get_field any_int 0 ''hp'' child_with_hp = Inr 100"
    by (simp add: field_exists_def get_field_def subscript_def proxy_exists_def proxy_as_def
        child_with_hp_def hp_slot_def any_int_def)
  from field_round_trip [OF ne ok, of "''hp''" 7] before old show ?thesis
    by blast
qed

text \<open>
  Claim C8. On a non-empty instance, for a callable \<open>f\<close> of two arguments and types whose
  \<open>any_cast\<close> recovers what was stored: after \<open>def<R, A, B>(name, f)\<close> the call
  \<open>call<R>(name, a, b)\<close> returns \<open>f a b\<close>; a call of a name with no entry faults (no function
  map, or function not found); a call of the defined name with an argument vector whose
  length is not two faults with the argument count mismatch. \<open>call\<close> and \<open>operator()\<close> are
  \<open>const\<close>: they compute a result or a fault from the state and produce no new state.
\<close>

theorem method_round_trip:
  assumes "ptr_m (slots s i) \<noteq> None"
    and "any_cast_ok ta" and "any_cast_ok tb" and "any_cast_ok tr"
  shows "call tr i name [box ta a, box tb b] (def ta tb tr i name f s) = Inr (f a b) \<and>
         ((\<forall>m. dyn_fns_m (slots s i) = Some m \<longrightarrow> m other = None) \<longrightarrow>
            call tr i other args s =
              Inl (if dyn_fns_m (slots s i) = None then NoFunctionsDefined
                   else FunctionNotFound other)) \<and>
         (length args \<noteq> 2 \<longrightarrow>
            call tr i name args (def ta tb tr i name f s) = Inl ArgCountMismatch)"
  using assms
  by (auto simp: call_def invoke_def def_def slot_upd_def ensure_fns_def call_fn_from_anys_def
      call_result_as_def any_cast_ok_def split: option.splits)

theorem method_round_trip_witness:
  "call any_int 0 ''add'' [AnyInt 10, AnyInt 20]
     (def any_int any_int any_int 0 ''add'' (+) child_with_hp) = Inr 30 \<and>
   call any_int 0 ''mul'' [AnyInt 10, AnyInt 20] child_with_hp = Inl NoFunctionsDefined \<and>
   call any_int 0 ''add'' [AnyInt 10]
     (def any_int any_int any_int 0 ''add'' (+) child_with_hp) = Inl ArgCountMismatch"
proof -
  have ne: "ptr_m (slots child_with_hp 0) \<noteq> None"
    by (simp add: child_with_hp_def hp_slot_def)
  have ok: "any_cast_ok any_int"
    by (simp add: any_cast_ok_def any_int_def)
  have nf: "dyn_fns_m (slots child_with_hp 0) = None"
    by (simp add: child_with_hp_def hp_slot_def)
  have bx: "box any_int = AnyInt" by (simp add: any_int_def)
  from method_round_trip [OF ne ok ok ok, of "''add''" 10 20 "(+)" "''mul''" "[AnyInt 10, AnyInt 20]"]
       method_round_trip [OF ne ok ok ok, of "''add''" 10 20 "(+)" "''mul''" "[AnyInt 10]"]
  show ?thesis
    by (simp add: nf bx)
qed


section \<open>Properties of \<open>equals\<close>\<close>

text \<open>
  Claim C10. \<open>equals\<close> is true when both instances are empty and false when exactly one is,
  and in both cases the result does not depend on the equality capability of \<open>T\<close>: the
  member \<open>equals\<close>, \<open>operator==\<close> and pointer identity are consulted only when both instances
  own a value.
\<close>

theorem equals_on_empty:
  shows "(ptr_m (slots s i) = None \<and> ptr_m (slots s j) = None \<longrightarrow> equals cap i j s) \<and>
         ((ptr_m (slots s i) = None) \<noteq> (ptr_m (slots s j) = None) \<longrightarrow> \<not> equals cap i j s) \<and>
         (ptr_m (slots s i) = None \<or> ptr_m (slots s j) = None \<longrightarrow>
            equals cap i j s = equals cap' i j s)"
  by (auto simp: equals_def split: option.splits)

theorem equals_on_empty_witness:
  "equals node_eq 1 1 root_and_child \<and> \<not> equals node_eq 0 1 root_and_child \<and>
   \<not> equals no_eq 1 0 root_and_child"
  using equals_on_empty [of root_and_child 1 1 node_eq node_eq]
        equals_on_empty [of root_and_child 0 1 node_eq node_eq]
        equals_on_empty [of root_and_child 1 0 no_eq no_eq]
  by (simp add: root_and_child_def null_slot_def)


end
